theory Spec2Isabelle
  imports Complex_Main "HOL-Library.Word"
begin

section \<open>Water level switch: the pump controller of main.py\<close>

text \<open>
  The program is one module: constants, a handful of module-level variables, three small
  helpers, the display routine and an endless polling loop. The embedding below follows it
  top to bottom.

  \<^item> Python floats (and the numbers returned by \<open>time.time()\<close>, which are integers on
    MicroPython and floats on CPython) are modelled as exact rationals. Rounding error of
    floating point arithmetic is therefore outside the model.
  \<^item> The module-level variables form the record \<open>cstate\<close>, together with the level of
    the output pin \<open>pump_control\<close>, which the loop reads back.
  \<^item> Everything the environment answers during one iteration (each call of
    \<open>time.time()\<close> and the ADC sample) is an input of that iteration, record \<open>tick_in\<close>.
  \<^item> Everything an iteration does to the outside (console, pin, OLED, sleep) is the list of
    events it returns.
  \<^item> A name that is read before it is bound, or \<open>None\<close> used in arithmetic, is an error
    value; it ends the program, and the events of the failing iteration are not reported.
  \<^item> The set-up of lines 11 to 35 (I2C scan, OLED driver, pins) is not modelled, nor are the
    two input pins that the loop never reads.

  The only comparison of a computed float with a constant is \<open>voltage < 2.1\<close>. The
  16-bit samples on either side of the threshold, 41704 and 41705, give voltages that differ
  from 2.1 by more than 4e-6, far more than the rounding error of the two float
  operations, so the exact comparison decides as the float comparison does.
\<close>

subsection \<open>Formatting numbers\<close>

definition digit_char :: "nat \<Rightarrow> char" where
  "digit_char d = ''0123456789'' ! (d mod 10)"

fun show_nat :: "nat \<Rightarrow> string" where
  "show_nat n = (if n < 10 then [digit_char n] else show_nat (n div 10) @ [digit_char n])"

declare show_nat.simps [simp del]

definition show_int :: "int \<Rightarrow> string" where
  "show_int i = (if i < 0 then ''-'' @ show_nat (nat (- i)) else show_nat (nat i))"

definition round_half_even :: "rat \<Rightarrow> int" where
  "round_half_even y =
     (let f = \<lfloor>y\<rfloor>; r = y - of_int f
      in if r < 1 / 2 then f
         else if 1 / 2 < r then f + 1
         else if even f then f else f + 1)"

definition zero_pad :: "nat \<Rightarrow> string \<Rightarrow> string" where
  "zero_pad w s = replicate (w - length s) CHR ''0'' @ s"

text \<open>
  \<open>fmt_fixed p x\<close> is the format specification \<open>:.pf\<close> applied to \<open>x\<close>: sign, integer
  part, and \<open>p\<close> decimals of the value rounded to the nearest multiple of \<open>10^-p\<close>.
\<close>

definition fmt_fixed :: "nat \<Rightarrow> rat \<Rightarrow> string" where
  "fmt_fixed p x =
     (let n = nat (round_half_even (\<bar>x\<bar> * 10 ^ p));
          whole = show_nat (n div 10 ^ p);
          frac = (if p = 0 then [] else ''.'' @ zero_pad p (show_nat (n mod 10 ^ p)))
      in (if x < 0 then ''-'' else []) @ whole @ frac)"

subsection \<open>Constants\<close>

definition PUMP_RATE_LITRES_PER_MIN :: rat where
  "PUMP_RATE_LITRES_PER_MIN = 64 / 10"

definition MAX_PUMP_DURATION :: rat where
  "MAX_PUMP_DURATION = 10 * 60"

definition REST_DURATION :: rat where
  "REST_DURATION = 60"

definition MIN_RUN_TIME :: rat where
  "MIN_RUN_TIME = 10"

definition PAUSE_BETWEEN_RUNS :: rat where
  "PAUSE_BETWEEN_RUNS = 10"

subsection \<open>State, inputs, outputs\<close>

datatype error = TypeError | NameError

datatype event =
    Print string
  | Pump_on
  | Pump_off
  | Oled_fill nat
  | Oled_text string nat nat
  | Oled_show
  | Sleep rat

text \<open>
  \<open>voltage\<close> is bound by the loop only after the resting check, so it starts unbound
  (\<open>None\<close>). \<open>pump_control\<close> is the level of GPIO 15.
\<close>

record cstate =
  litres_pumped :: rat
  pump_cycles :: int
  pump_active_time :: rat
  pump_start_time :: "rat option"
  rest_start_time :: "rat option"
  is_resting :: bool
  last_pump_stop_time :: "rat option"
  start_time :: rat
  voltage :: "rat option"
  pump_control :: bool

text \<open>
  The readings of one iteration, named after the place that takes them:
  \<open>t_loop\<close> line 98, \<open>raw_adc\<close> line 46, \<open>t_rt\<close> line 119, \<open>t_on\<close> line 133,
  \<open>t_dur\<close> line 142, \<open>t_stop\<close> line 146, \<open>t_disp\<close> line 75. A reading is used only
  when its line is executed.
\<close>

record tick_in =
  t_loop :: rat
  raw_adc :: "16 word"
  t_rt :: rat
  t_on :: rat
  t_dur :: rat
  t_stop :: rat
  t_disp :: rat

text \<open>
  The state after the module-level assignments of lines 55 to 62. \<open>Pin(15, Pin.OUT)\<close>
  gives no initial value, so the level \<open>p\<close> of the pin is whatever the hardware held.
\<close>

definition init :: "rat \<Rightarrow> bool \<Rightarrow> cstate" where
  "init now p =
     \<lparr> litres_pumped = 0, pump_cycles = 0, pump_active_time = 0,
       pump_start_time = None, rest_start_time = None, is_resting = False,
       last_pump_stop_time = None, start_time = now, voltage = None,
       pump_control = p \<rparr>"

subsection \<open>Helpers\<close>

definition read_voltage :: "16 word \<Rightarrow> rat" where
  "read_voltage raw_value = (of_nat (unat raw_value) / 65535) * (33 / 10)"

definition read_pump_status :: "bool \<Rightarrow> string" where
  "read_pump_status v = (if v then ''ON'' else ''OFF'')"

definition format_hours :: "rat \<Rightarrow> string" where
  "format_hours seconds = (let hours = seconds / 3600 in fmt_fixed 3 hours)"

definition format_minutes :: "rat \<Rightarrow> string" where
  "format_minutes seconds = (let minutes = seconds / 60 in fmt_fixed 2 minutes)"

subsection \<open>The display routine\<close>

text \<open>
  Lines 76 and 77. \<open>start_time\<close> is tested for truth, so a start time of 0 counts as
  missing and the elapsed time is then 1.
\<close>

definition elapsed_time :: "rat \<Rightarrow> cstate \<Rightarrow> rat" where
  "elapsed_time current_time s =
     (if start_time s \<noteq> 0 then current_time - start_time s else 1)"

definition pump_duty_cycle :: "rat \<Rightarrow> cstate \<Rightarrow> rat \<Rightarrow> rat" where
  "pump_duty_cycle current_time s current_active_time =
     (if elapsed_time current_time s > 0
      then (current_active_time / elapsed_time current_time s) * 100 else 0)"

definition display_info :: "rat \<Rightarrow> cstate \<Rightarrow> rat \<Rightarrow> rat \<Rightarrow> error + event list" where
  "display_info current_time s current_active_time current_litres_pumped =
     (let elapsed_time_str = format_hours (elapsed_time current_time s);
          pump_on_time_str = format_minutes current_active_time;
          pump_duty_cycle_str =
            fmt_fixed 2 (pump_duty_cycle current_time s current_active_time) @ '' %'';
          pump_cycles_str = show_int (pump_cycles s);
          volume_pumped_str = fmt_fixed 2 current_litres_pumped @ '' L''
      in case voltage s of
           None \<Rightarrow> Inl NameError
         | Some v \<Rightarrow>
             Inr [ Oled_fill 0,
                   Oled_text ('' Elap: '' @ elapsed_time_str @ ''h'') 0 0,
                   Oled_text (''PmpON: '' @ pump_on_time_str @ '' m'') 0 11,
                   Oled_text ('' Duty: '' @ pump_duty_cycle_str) 0 22,
                   Oled_text (''Cycls: '' @ pump_cycles_str) 0 33,
                   Oled_text (''  Vol: '' @ volume_pumped_str) 0 44,
                   Oled_text (''Volts: '' @ fmt_fixed 2 v @ '' V'') 0 55,
                   Oled_show ])"

subsection \<open>One iteration of the loop\<close>

text \<open>
  Lines 117 to 124: the figures shown while a run is in progress, that is when the pin is
  on and \<open>pump_start_time\<close> is set (both conditions of line 118).
\<close>

definition estimates :: "tick_in \<Rightarrow> cstate \<Rightarrow> rat \<times> rat" where
  "estimates i s =
     (case pump_start_time s of
        Some st \<Rightarrow>
          if pump_control s then
            (let real_time_pump_duration = t_rt i - st
             in (pump_active_time s + real_time_pump_duration,
                 litres_pumped s
                   + PUMP_RATE_LITRES_PER_MIN * (real_time_pump_duration / 60)))
          else (pump_active_time s, litres_pumped s)
      | None \<Rightarrow> (pump_active_time s, litres_pumped s))"

text \<open>Lines 126 to 146: switching the pump, with the sample \<open>v\<close> of this iteration.\<close>

definition control :: "tick_in \<Rightarrow> rat \<Rightarrow> cstate \<Rightarrow> event list \<times> cstate" where
  "control i v s =
     (let current_time = t_loop i in
      if v < 21 / 10 \<and> \<not> is_resting s then
        (if (case last_pump_stop_time s of
               None \<Rightarrow> True
             | Some l \<Rightarrow> current_time - l \<ge> PAUSE_BETWEEN_RUNS)
         then
           (if \<not> pump_control s then
              ([Print ''Turning pump ON'', Pump_on,
                Print ''Pump is turned ON due to low voltage.''],
               s\<lparr> pump_control := True,
                  pump_start_time := Some (t_on i),
                  pump_cycles := pump_cycles s + 1 \<rparr>)
            else ([Print ''Pump is turned ON due to low voltage.''], s))
         else ([], s))
      else
        (if pump_control s then
           (case pump_start_time s of
              None \<Rightarrow> ([], s)
            | Some st \<Rightarrow>
                if current_time - st \<ge> MIN_RUN_TIME then
                  (let pump_duration = t_dur i - st
                   in ([Print ''Turning pump OFF'', Pump_off],
                       s\<lparr> pump_control := False,
                          pump_active_time := pump_active_time s + pump_duration,
                          litres_pumped := litres_pumped s
                            + PUMP_RATE_LITRES_PER_MIN * (pump_duration / 60),
                          pump_start_time := None,
                          last_pump_stop_time := Some (t_stop i) \<rparr>))
                else ([], s))
         else ([], s)))"

text \<open>Lines 110 to 151: the part of the body after the resting check.\<close>

definition body :: "tick_in \<Rightarrow> event list \<Rightarrow> cstate \<Rightarrow> error + (event list \<times> cstate)" where
  "body i pre s =
     (let v = read_voltage (raw_adc i);
          s1 = s\<lparr> voltage := Some v \<rparr>;
          pump_status = read_pump_status (pump_control s1);
          diag = [Print (''Voltage at GPIO 26: '' @ fmt_fixed 2 v @ '' V''),
                  Print (''Pump Status: '' @ pump_status)];
          (current_active_time, current_litres_pumped) = estimates i s1;
          (acts, s2) = control i v s1
      in case display_info (t_disp i) s2 current_active_time current_litres_pumped of
           Inl e \<Rightarrow> Inl e
         | Inr shown \<Rightarrow> Inr (pre @ diag @ acts @ shown @ [Sleep (1 / 10)], s2))"

text \<open>Lines 98 to 151: one pass through the body of \<open>while True\<close>.\<close>

definition tick :: "tick_in \<Rightarrow> cstate \<Rightarrow> error + (event list \<times> cstate)" where
  "tick i s =
     (let current_time = t_loop i in
      if is_resting s then
        (case rest_start_time s of
           None \<Rightarrow> Inl TypeError
         | Some r \<Rightarrow>
             if current_time - r \<ge> REST_DURATION then
               body i [Print ''Rest period over. Resuming normal operation.'']
                 (s\<lparr> is_resting := False \<rparr>)
             else
               (case display_info (t_disp i) s (pump_active_time s) (litres_pumped s) of
                  Inl e \<Rightarrow> Inl e
                | Inr shown \<Rightarrow> Inr ([Print ''Resting...''] @ shown @ [Sleep 1], s)))
      else body i [] s)"

text \<open>
  The loop never ends by itself. \<open>run\<close> performs the iterations for which readings are
  given and returns the events of each iteration, or the error that stopped the program.
\<close>

fun run :: "tick_in list \<Rightarrow> cstate \<Rightarrow> error + (event list list \<times> cstate)" where
  "run [] s = Inr ([], s)"
| "run (i # is) s =
     (case tick i s of
        Inl e \<Rightarrow> Inl e
      | Inr (ev, s') \<Rightarrow>
          (case run is s' of
             Inl e \<Rightarrow> Inl e
           | Inr (evs, s'') \<Rightarrow> Inr (ev # evs, s'')))"

subsection \<open>Names for the branches of the loop body\<close>

text \<open>The condition under which lines 131 to 134 are executed.\<close>

definition start_due :: "tick_in \<Rightarrow> rat \<Rightarrow> cstate \<Rightarrow> bool" where
  "start_due i v s \<longleftrightarrow>
     v < 21 / 10 \<and> \<not> is_resting s \<and> \<not> pump_control s \<and>
     (last_pump_stop_time s = None \<or>
       (\<exists>l. last_pump_stop_time s = Some l \<and> t_loop i - l \<ge> PAUSE_BETWEEN_RUNS))"

text \<open>The condition under which lines 140 to 146 are executed.\<close>

definition stop_due :: "tick_in \<Rightarrow> rat \<Rightarrow> cstate \<Rightarrow> bool" where
  "stop_due i v s \<longleftrightarrow>
     \<not> (v < 21 / 10 \<and> \<not> is_resting s) \<and> pump_control s \<and>
     (\<exists>st. pump_start_time s = Some st \<and> t_loop i - st \<ge> MIN_RUN_TIME)"

text \<open>The assignments of lines 132 to 134.\<close>

definition on_update :: "tick_in \<Rightarrow> cstate \<Rightarrow> cstate" where
  "on_update i s = s\<lparr> pump_control := True, pump_start_time := Some (t_on i),
                        pump_cycles := pump_cycles s + 1 \<rparr>"

text \<open>The assignments of lines 141 to 146, for a run that started at \<open>st\<close>.\<close>

definition off_update :: "tick_in \<Rightarrow> rat \<Rightarrow> cstate \<Rightarrow> cstate" where
  "off_update i st s = s\<lparr> pump_control := False,
                   pump_active_time := pump_active_time s + (t_dur i - st),
                   litres_pumped := litres_pumped s
                     + PUMP_RATE_LITRES_PER_MIN * ((t_dur i - st) / 60),
                   pump_start_time := None,
                   last_pump_stop_time := Some (t_stop i) \<rparr>"

text \<open>The condition under which the iteration ends at \<open>continue\<close> (line 108).\<close>

definition holding :: "tick_in \<Rightarrow> cstate \<Rightarrow> bool" where
  "holding i s \<longleftrightarrow>
     is_resting s \<and> (\<exists>r. rest_start_time s = Some r \<and> \<not> t_loop i - r \<ge> REST_DURATION)"

text \<open>The state on reaching line 117: not resting, with the sample of this iteration.\<close>

definition armed :: "tick_in \<Rightarrow> cstate \<Rightarrow> cstate" where
  "armed i s = s\<lparr> is_resting := False, voltage := Some (read_voltage (raw_adc i)) \<rparr>"

subsection \<open>Sample readings and states\<close>

text \<open>Readings of an iteration in which every clock call returns \<open>t\<close>.\<close>

definition sample :: "rat \<Rightarrow> 16 word \<Rightarrow> tick_in" where
  "sample t r = \<lparr> t_loop = t, raw_adc = r, t_rt = t, t_on = t, t_dur = t, t_stop = t, t_disp = t \<rparr>"

text \<open>A state in which the pump was last stopped at time 100.\<close>

definition stopped_at_100 :: cstate where
  "stopped_at_100 =
     \<lparr> litres_pumped = 32 / 15, pump_cycles = 1, pump_active_time = 20,
       pump_start_time = None, rest_start_time = None, is_resting = False,
       last_pump_stop_time = Some 100, start_time = 50,
       voltage = Some (273064 / 109225), pump_control = False \<rparr>"

text \<open>A state in which the pump has been running since time 80.\<close>

definition running_since_80 :: cstate where
  "running_since_80 =
     \<lparr> litres_pumped = 0, pump_cycles = 1, pump_active_time = 0,
       pump_start_time = Some 80, rest_start_time = None, is_resting = False,
       last_pump_stop_time = None, start_time = 50,
       voltage = Some (196603 / 109225), pump_control = True \<rparr>"

text \<open>
  Readings of an iteration whose clock reads 100 at line 98 and 70 at line 142.
\<close>

definition clock_back :: tick_in where
  "clock_back = \<lparr> t_loop = 100, raw_adc = 49648, t_rt = 100, t_on = 100, t_dur = 70,
                   t_stop = 100, t_disp = 100 \<rparr>"

text \<open>
  A state of a program whose clock read 0 at line 62, after one pump run from 10 to 610.
\<close>

definition started_at_zero :: cstate where
  "started_at_zero =
     \<lparr> litres_pumped = 64, pump_cycles = 1, pump_active_time = 600,
       pump_start_time = None, rest_start_time = None, is_resting = False,
       last_pump_stop_time = Some 610, start_time = 0,
       voltage = Some (273064 / 109225), pump_control = False \<rparr>"

subsection \<open>Completed pump runs of a trace\<close>

text \<open>
  The durations of the completed pump runs of a trace (the readings of each iteration with
  the events it produced): a run starts at the time read on line 133 by the iteration that
  issues the ON command and ends at the time read on line 142 by the iteration that issues
  the OFF command. \<open>st\<close> is the start of the run in progress, if any.
\<close>

fun cycle_durations :: "rat option \<Rightarrow> (tick_in \<times> event list) list \<Rightarrow> rat list" where
  "cycle_durations st [] = []"
| "cycle_durations st ((i, ev) # r) =
     (if Pump_on \<in> set ev then cycle_durations (Some (t_on i)) r
      else if Pump_off \<in> set ev then
        (case st of
           Some t0 \<Rightarrow> (t_dur i - t0) # cycle_durations None r
         | None \<Rightarrow> cycle_durations None r)
      else cycle_durations st r)"

section \<open>Auxiliary facts\<close>

lemmas constants =
  PUMP_RATE_LITRES_PER_MIN_def MAX_PUMP_DURATION_def REST_DURATION_def
  MIN_RUN_TIME_def PAUSE_BETWEEN_RUNS_def

lemma display_info_pump:
  "display_info t s a l = Inr ev \<Longrightarrow> Pump_on \<notin> set ev \<and> Pump_off \<notin> set ev"
  by (auto simp: display_info_def Let_def split: option.splits)

lemma display_info_Inr_iff:
  "(\<exists>ev. display_info t s a l = Inr ev) \<longleftrightarrow> voltage s \<noteq> None"
  by (auto simp: display_info_def Let_def split: option.splits)

lemma control_on_iff: "Pump_on \<in> set (fst (control i v s)) \<longleftrightarrow> start_due i v s"
  unfolding control_def start_due_def Let_def
  by (cases "last_pump_stop_time s"; cases "pump_start_time s"; simp)

lemma control_off_iff: "Pump_off \<in> set (fst (control i v s)) \<longleftrightarrow> stop_due i v s"
  unfolding control_def stop_due_def Let_def
  by (cases "last_pump_stop_time s"; cases "pump_start_time s"; simp)

lemma control_snd:
  "snd (control i v s) =
     (if start_due i v s then on_update i s
      else if stop_due i v s then off_update i (the (pump_start_time s)) s
      else s)"
  unfolding control_def start_due_def stop_due_def on_update_def off_update_def Let_def
  by (cases "last_pump_stop_time s"; cases "pump_start_time s"; auto)

lemma body_result:
  "body i pre s = Inr (ev, s') \<Longrightarrow>
     s' = snd (control i (read_voltage (raw_adc i)) (s\<lparr>voltage := Some (read_voltage (raw_adc i))\<rparr>)) \<and>
     (\<exists>shown. display_info (t_disp i) s'
          (fst (estimates i (s\<lparr>voltage := Some (read_voltage (raw_adc i))\<rparr>)))
          (snd (estimates i (s\<lparr>voltage := Some (read_voltage (raw_adc i))\<rparr>))) = Inr shown \<and>
        ev = pre @ [Print (''Voltage at GPIO 26: '' @ fmt_fixed 2 (read_voltage (raw_adc i)) @ '' V''),
                  Print (''Pump Status: '' @ read_pump_status (pump_control s))]
               @ fst (control i (read_voltage (raw_adc i)) (s\<lparr>voltage := Some (read_voltage (raw_adc i))\<rparr>))
               @ shown @ [Sleep (1 / 10)])"
  unfolding body_def Let_def
  by (auto split: prod.splits sum.splits)

lemma body_pump_on:
  assumes "body i pre s = Inr (ev, s')" "Pump_on \<notin> set pre"
  shows "Pump_on \<in> set ev \<longleftrightarrow>
     Pump_on \<in> set (fst (control i (read_voltage (raw_adc i)) (s\<lparr>voltage := Some (read_voltage (raw_adc i))\<rparr>)))"
  using body_result [OF assms(1)] assms(2) display_info_pump by fastforce

lemma body_pump_off:
  assumes "body i pre s = Inr (ev, s')" "Pump_off \<notin> set pre"
  shows "Pump_off \<in> set ev \<longleftrightarrow>
     Pump_off \<in> set (fst (control i (read_voltage (raw_adc i)) (s\<lparr>voltage := Some (read_voltage (raw_adc i))\<rparr>)))"
  using body_result [OF assms(1)] assms(2) display_info_pump by fastforce

lemma unrest [simp]: "\<not> is_resting s \<Longrightarrow> s\<lparr>is_resting := False\<rparr> = s"
  by (cases s) simp

lemma tick_holding:
  "holding i s \<Longrightarrow>
     tick i s =
       (case display_info (t_disp i) s (pump_active_time s) (litres_pumped s) of
          Inl e \<Rightarrow> Inl e
        | Inr shown \<Rightarrow> Inr ([Print ''Resting...''] @ shown @ [Sleep 1], s))"
  unfolding tick_def holding_def Let_def by auto

lemma tick_not_holding:
  "\<not> holding i s \<Longrightarrow>
     tick i s =
       (if is_resting s \<and> rest_start_time s = None then Inl TypeError
        else body i (if is_resting s
                     then [Print ''Rest period over. Resuming normal operation.'']
                     else []) (s\<lparr>is_resting := False\<rparr>))"
  unfolding tick_def holding_def Let_def by (auto split: option.splits)

lemma tick_state:
  assumes "tick i s = Inr (ev, s')"
  shows "s' = (if holding i s then s
               else snd (control i (read_voltage (raw_adc i)) (armed i s)))"
proof (cases "holding i s")
  case True
  with assms show ?thesis by (auto simp: tick_holding split: sum.splits)
next
  case False
  with assms show ?thesis
    by (auto simp: tick_not_holding armed_def split: if_splits dest: body_result)
qed

lemma tick_on_iff:
  assumes "tick i s = Inr (ev, s')"
  shows "Pump_on \<in> set ev \<longleftrightarrow>
           \<not> holding i s \<and> start_due i (read_voltage (raw_adc i)) (armed i s)"
proof (cases "holding i s")
  case True
  with assms show ?thesis
    by (auto simp: tick_holding split: sum.splits dest: display_info_pump)
next
  case False
  with assms have b: "body i (if is_resting s
                     then [Print ''Rest period over. Resuming normal operation.'']
                     else []) (s\<lparr>is_resting := False\<rparr>) = Inr (ev, s')"
    by (simp add: tick_not_holding split: if_splits)
  show ?thesis
    using body_pump_on [OF b] False by (simp add: control_on_iff armed_def)
qed

lemma tick_off_iff:
  assumes "tick i s = Inr (ev, s')"
  shows "Pump_off \<in> set ev \<longleftrightarrow>
           \<not> holding i s \<and> stop_due i (read_voltage (raw_adc i)) (armed i s)"
proof (cases "holding i s")
  case True
  with assms show ?thesis
    by (auto simp: tick_holding split: sum.splits dest: display_info_pump)
next
  case False
  with assms have b: "body i (if is_resting s
                     then [Print ''Rest period over. Resuming normal operation.'']
                     else []) (s\<lparr>is_resting := False\<rparr>) = Inr (ev, s')"
    by (simp add: tick_not_holding split: if_splits)
  show ?thesis
    using body_pump_off [OF b] False by (simp add: control_off_iff armed_def)
qed

lemma start_due_armed:
  "start_due i v (armed i s) \<longleftrightarrow>
     v < 21 / 10 \<and> \<not> pump_control s \<and>
     (last_pump_stop_time s = None \<or>
       (\<exists>l. last_pump_stop_time s = Some l \<and> t_loop i - l \<ge> PAUSE_BETWEEN_RUNS))"
  by (simp add: start_due_def armed_def)

lemma stop_due_armed:
  "stop_due i v (armed i s) \<longleftrightarrow>
     \<not> v < 21 / 10 \<and> pump_control s \<and>
     (\<exists>st. pump_start_time s = Some st \<and> t_loop i - st \<ge> MIN_RUN_TIME)"
  by (simp add: stop_due_def armed_def)

lemma control_voltage: "voltage (snd (control i v s)) = voltage s"
  by (simp add: control_snd on_update_def off_update_def)

lemma body_total: "\<exists>ev s'. body i pre s = Inr (ev, s')"
proof -
  let ?v = "read_voltage (raw_adc i)"
  let ?s1 = "s\<lparr>voltage := Some ?v\<rparr>"
  have "voltage (snd (control i ?v ?s1)) \<noteq> None"
    by (simp add: control_voltage)
  then obtain shown where
    "display_info (t_disp i) (snd (control i ?v ?s1))
       (fst (estimates i ?s1)) (snd (estimates i ?s1)) = Inr shown"
    using display_info_Inr_iff by blast
  then show ?thesis
    unfolding body_def Let_def by (simp add: case_prod_beta)
qed

lemma tick_total: "\<not> is_resting s \<Longrightarrow> \<exists>ev s'. tick i s = Inr (ev, s')"
  using body_total [of i "[]" s] by (simp add: tick_def)

lemma on_update_sel:
  "pump_control (on_update i s)" "pump_cycles (on_update i s) = pump_cycles s + 1"
  "pump_start_time (on_update i s) = Some (t_on i)"
  "litres_pumped (on_update i s) = litres_pumped s"
  "pump_active_time (on_update i s) = pump_active_time s"
  "is_resting (on_update i s) = is_resting s"
  "last_pump_stop_time (on_update i s) = last_pump_stop_time s"
  by (simp_all add: on_update_def)

lemma off_update_sel:
  "\<not> pump_control (off_update i st s)" "pump_cycles (off_update i st s) = pump_cycles s"
  "pump_start_time (off_update i st s) = None"
  "litres_pumped (off_update i st s) =
     litres_pumped s + PUMP_RATE_LITRES_PER_MIN * ((t_dur i - st) / 60)"
  "pump_active_time (off_update i st s) = pump_active_time s + (t_dur i - st)"
  "is_resting (off_update i st s) = is_resting s"
  "last_pump_stop_time (off_update i st s) = Some (t_stop i)"
  by (simp_all add: off_update_def)

lemma armed_sel:
  "pump_control (armed i s) = pump_control s" "pump_cycles (armed i s) = pump_cycles s"
  "pump_start_time (armed i s) = pump_start_time s"
  "litres_pumped (armed i s) = litres_pumped s"
  "pump_active_time (armed i s) = pump_active_time s"
  "\<not> is_resting (armed i s)"
  "last_pump_stop_time (armed i s) = last_pump_stop_time s"
  by (simp_all add: armed_def)

lemma start_stop_exclusive: "start_due i v s \<Longrightarrow> \<not> stop_due i v s"
  by (auto simp: start_due_def stop_due_def)

section \<open>Properties\<close>

text \<open>
  C10: \<open>format_hours(3600)\<close> is the string 1.000 and \<open>format_minutes(120)\<close> is the string
  2.00: the seconds divided by 3600 with three decimals, and divided by 60 with two.
\<close>

theorem format_round_trip:
  "format_hours 3600 = ''1.000'' \<and> format_minutes 120 = ''2.00''"
  by code_simp

text \<open>
  C1: an iteration switches the pump on (and counts a cycle) only when the sample is below
  2.1, the pin is off, and the pump either never stopped or stopped at least
  \<open>PAUSE_BETWEEN_RUNS\<close> = 10 seconds before the time read at the top of the iteration.
  With the pump off and last stopped at 100, an iteration at 105 with a low sample does not
  start it, and one at 111 does.
\<close>

theorem pump_start_gate:
  "(\<forall>ev s'. tick i s = Inr (ev, s') \<and> Pump_on \<in> set ev \<longrightarrow>
       read_voltage (raw_adc i) < 21 / 10 \<and> \<not> pump_control s \<and>
       (last_pump_stop_time s = None \<or>
         (\<exists>l. last_pump_stop_time s = Some l \<and> t_loop i - l \<ge> PAUSE_BETWEEN_RUNS)) \<and>
       PAUSE_BETWEEN_RUNS = 10 \<and>
       pump_control s' \<and> pump_cycles s' = pump_cycles s + 1)
   \<and> (\<not> is_resting s \<and> \<not> pump_control s \<and> last_pump_stop_time s = Some 100 \<and>
        read_voltage (raw_adc i) < 21 / 10 \<longrightarrow>
        (t_loop i = 105 \<longrightarrow>
           (\<exists>ev s'. tick i s = Inr (ev, s') \<and> Pump_on \<notin> set ev \<and>
              \<not> pump_control s' \<and> pump_cycles s' = pump_cycles s)) \<and>
        (t_loop i = 111 \<longrightarrow>
           (\<exists>ev s'. tick i s = Inr (ev, s') \<and> Pump_on \<in> set ev \<and>
              pump_control s' \<and> pump_cycles s' = pump_cycles s + 1)))"
proof (intro conjI allI impI)
  let ?v = "read_voltage (raw_adc i)"
  {
    fix ev s'
    assume a: "tick i s = Inr (ev, s') \<and> Pump_on \<in> set ev"
    then have d: "\<not> holding i s" "start_due i ?v (armed i s)"
      using tick_on_iff by blast+
    from d(2) show "?v < 21 / 10" "\<not> pump_control s"
      "last_pump_stop_time s = None \<or>
         (\<exists>l. last_pump_stop_time s = Some l \<and> t_loop i - l \<ge> PAUSE_BETWEEN_RUNS)"
      by (simp_all add: start_due_armed)
    show "PAUSE_BETWEEN_RUNS = 10" by (simp add: PAUSE_BETWEEN_RUNS_def)
    from a d have "s' = on_update i (armed i s)"
      using tick_state [of i s ev s'] by (simp add: control_snd)
    then show "pump_control s'" "pump_cycles s' = pump_cycles s + 1"
      by (simp_all add: on_update_sel armed_sel)
  }
  assume b: "\<not> is_resting s \<and> \<not> pump_control s \<and> last_pump_stop_time s = Some 100 \<and>
        ?v < 21 / 10"
  then obtain ev s' where t: "tick i s = Inr (ev, s')"
    using tick_total by blast
  from b have nh: "\<not> holding i s" by (simp add: holding_def)
  {
    assume "t_loop i = 105"
    with b have nd: "\<not> start_due i ?v (armed i s)" "\<not> stop_due i ?v (armed i s)"
      by (simp_all add: start_due_armed stop_due_armed PAUSE_BETWEEN_RUNS_def)
    then have "s' = armed i s"
      using tick_state [OF t] nh by (simp add: control_snd)
    with b nd t nh show "\<exists>ev s'. tick i s = Inr (ev, s') \<and> Pump_on \<notin> set ev \<and>
              \<not> pump_control s' \<and> pump_cycles s' = pump_cycles s"
      using tick_on_iff [OF t] by (auto simp: armed_sel)
  }
  {
    assume "t_loop i = 111"
    with b have nd: "start_due i ?v (armed i s)"
      by (simp_all add: start_due_armed PAUSE_BETWEEN_RUNS_def)
    then have "s' = on_update i (armed i s)"
      using tick_state [OF t] nh by (simp add: control_snd)
    with b nd t nh show "\<exists>ev s'. tick i s = Inr (ev, s') \<and> Pump_on \<in> set ev \<and>
              pump_control s' \<and> pump_cycles s' = pump_cycles s + 1"
      using tick_on_iff [OF t] by (auto simp: armed_sel on_update_sel)
  }
qed

theorem pump_start_gate_witness:
  "(\<exists>ev s'. tick (sample 105 35746) stopped_at_100 = Inr (ev, s') \<and> Pump_on \<notin> set ev \<and>
              \<not> pump_control s' \<and> pump_cycles s' = 1)
   \<and> (\<exists>ev s'. tick (sample 111 35746) stopped_at_100 = Inr (ev, s') \<and> Pump_on \<in> set ev \<and>
              read_voltage (raw_adc (sample 111 35746)) < 21 / 10 \<and>
              last_pump_stop_time stopped_at_100 = Some 100 \<and>
              pump_control s' \<and> pump_cycles s' = 2)"
proof -
  have h: "\<not> is_resting stopped_at_100" "\<not> pump_control stopped_at_100"
           "last_pump_stop_time stopped_at_100 = Some 100"
           "read_voltage (raw_adc (sample 105 35746)) < 21 / 10"
           "read_voltage (raw_adc (sample 111 35746)) < 21 / 10"
           "t_loop (sample 105 35746) = 105" "t_loop (sample 111 35746) = 111"
           "pump_cycles stopped_at_100 = 1"
    by (simp_all add: stopped_at_100_def sample_def read_voltage_def)
  have a: "\<exists>ev s'. tick (sample 105 35746) stopped_at_100 = Inr (ev, s') \<and> Pump_on \<notin> set ev \<and>
              \<not> pump_control s' \<and> pump_cycles s' = pump_cycles stopped_at_100"
    using pump_start_gate [of "sample 105 35746" stopped_at_100] h by blast
  have b: "\<exists>ev s'. tick (sample 111 35746) stopped_at_100 = Inr (ev, s') \<and> Pump_on \<in> set ev \<and>
              pump_control s' \<and> pump_cycles s' = pump_cycles stopped_at_100 + 1"
    using pump_start_gate [of "sample 111 35746" stopped_at_100] h by blast
  from a b h show ?thesis by simp
qed

lemma run_Cons_Inr:
  assumes "run (i # is) s = Inr (evs, s'')"
  obtains ev s' evs' where
    "tick i s = Inr (ev, s')" "run is s' = Inr (evs', s'')" "evs = ev # evs'"
  using assms by (auto split: sum.splits prod.splits)

lemma tick_next:
  assumes "tick i s = Inr (ev, s')"
  shows "s' = (if holding i s then s
               else if start_due i (read_voltage (raw_adc i)) (armed i s)
                 then on_update i (armed i s)
               else if stop_due i (read_voltage (raw_adc i)) (armed i s)
                 then off_update i (the (pump_start_time s)) (armed i s)
               else armed i s)"
  using tick_state [OF assms] by (simp add: control_snd armed_sel)

text \<open>
  C2: an iteration switches the pump off (and commits the accumulators) only when the
  sample is at least 2.1 and the time read at the top of the iteration is at least
  \<open>MIN_RUN_TIME\<close> = 10 seconds after \<open>pump_start_time\<close>; before that the pump stays on,
  whatever the sample.
\<close>

theorem pump_stop_gate:
  "(\<forall>ev s'. tick i s = Inr (ev, s') \<and> Pump_off \<in> set ev \<longrightarrow>
       \<not> read_voltage (raw_adc i) < 21 / 10 \<and> pump_control s \<and>
       (\<exists>st. pump_start_time s = Some st \<and> t_loop i - st \<ge> MIN_RUN_TIME \<and>
          pump_active_time s' = pump_active_time s + (t_dur i - st) \<and>
          litres_pumped s' =
            litres_pumped s + PUMP_RATE_LITRES_PER_MIN * ((t_dur i - st) / 60)) \<and>
       MIN_RUN_TIME = 10 \<and> \<not> pump_control s')
   \<and> (\<forall>st ev s'. pump_control s \<and> pump_start_time s = Some st \<and>
          t_loop i - st < MIN_RUN_TIME \<and> tick i s = Inr (ev, s') \<longrightarrow>
          Pump_off \<notin> set ev \<and> pump_control s' \<and> pump_start_time s' = Some st)"
proof (intro conjI allI impI)
  let ?v = "read_voltage (raw_adc i)"
  {
    fix ev s'
    assume a: "tick i s = Inr (ev, s') \<and> Pump_off \<in> set ev"
    then have d: "\<not> holding i s" "stop_due i ?v (armed i s)"
      using tick_off_iff by blast+
    from d(2) obtain st where st: "\<not> ?v < 21 / 10" "pump_control s"
      "pump_start_time s = Some st" "t_loop i - st \<ge> MIN_RUN_TIME"
      by (auto simp: stop_due_armed)
    from d(2) have "\<not> start_due i ?v (armed i s)"
      using start_stop_exclusive by blast
    with a d st have s': "s' = off_update i st (armed i s)"
      using tick_next [of i s ev s'] by simp
    show "\<not> ?v < 21 / 10" "pump_control s" by (rule st)+
    show "MIN_RUN_TIME = 10" by (simp add: MIN_RUN_TIME_def)
    show "\<not> pump_control s'" by (simp add: s' off_update_sel)
    show "\<exists>st. pump_start_time s = Some st \<and> t_loop i - st \<ge> MIN_RUN_TIME \<and>
          pump_active_time s' = pump_active_time s + (t_dur i - st) \<and>
          litres_pumped s' =
            litres_pumped s + PUMP_RATE_LITRES_PER_MIN * ((t_dur i - st) / 60)"
      using st by (simp add: s' off_update_sel armed_sel)
  }
  fix st ev s'
  assume b: "pump_control s \<and> pump_start_time s = Some st \<and>
          t_loop i - st < MIN_RUN_TIME \<and> tick i s = Inr (ev, s')"
  then have n: "\<not> start_due i ?v (armed i s)" "\<not> stop_due i ?v (armed i s)"
    by (simp_all add: start_due_armed stop_due_armed)
  with b have "s' = s \<or> s' = armed i s"
    using tick_next [of i s ev s'] by (simp split: if_splits)
  with b show "pump_control s'" "pump_start_time s' = Some st"
    by (auto simp: armed_sel)
  from b n show "Pump_off \<notin> set ev"
    using tick_off_iff [of i s ev s'] by simp
qed


theorem pump_stop_gate_witness:
  "(\<exists>ev s'. tick (sample 85 49648) running_since_80 = Inr (ev, s') \<and>
       \<not> read_voltage (raw_adc (sample 85 49648)) < 21 / 10 \<and>
       Pump_off \<notin> set ev \<and> pump_control s' \<and> pump_start_time s' = Some 80)
   \<and> (\<exists>ev s'. tick (sample 100 49648) running_since_80 = Inr (ev, s') \<and>
       Pump_off \<in> set ev \<and> \<not> pump_control s' \<and>
       pump_active_time s' = 20 \<and> litres_pumped s' = 32 / 15)"
proof -
  have h: "\<not> is_resting running_since_80" "pump_control running_since_80"
    "pump_start_time running_since_80 = Some 80"
    "pump_active_time running_since_80 = 0" "litres_pumped running_since_80 = 0"
    "\<not> read_voltage (raw_adc (sample 85 49648)) < 21 / 10"
    "\<not> read_voltage (raw_adc (sample 100 49648)) < 21 / 10"
    "t_loop (sample 85 49648) = 85" "t_loop (sample 100 49648) = 100"
    "t_dur (sample 100 49648) = 100"
    by (simp_all add: running_since_80_def sample_def read_voltage_def)
  obtain ev1 s1 where t1: "tick (sample 85 49648) running_since_80 = Inr (ev1, s1)"
    using tick_total h(1) by blast
  obtain ev2 s2 where t2: "tick (sample 100 49648) running_since_80 = Inr (ev2, s2)"
    using tick_total h(1) by blast
  have off: "Pump_off \<in> set ev2"
    using tick_off_iff [OF t2] h
    by (simp add: holding_def stop_due_armed MIN_RUN_TIME_def)
  have a: "Pump_off \<notin> set ev1 \<and> pump_control s1 \<and> pump_start_time s1 = Some 80"
    using pump_stop_gate [of "sample 85 49648" running_since_80] t1 h
    by (simp add: MIN_RUN_TIME_def)
  have b: "\<not> pump_control s2 \<and> pump_active_time s2 = 20 \<and> litres_pumped s2 = 32 / 15"
    using pump_stop_gate [of "sample 100 49648" running_since_80] t2 off h
    by (auto simp: PUMP_RATE_LITRES_PER_MIN_def)
  from a b t1 t2 off h show ?thesis by simp
qed

lemma run_invariant:
  assumes "run inps s = Inr (evs, s')" and "P s"
    and step: "\<And>i s ev s'. P s \<Longrightarrow> tick i s = Inr (ev, s') \<Longrightarrow> P s' \<and> Q ev"
  shows "P s' \<and> (\<forall>ev \<in> set evs. Q ev)"
  using assms(1,2)
proof (induction inps arbitrary: s evs)
  case Nil
  then show ?case by simp
next
  case (Cons i inps)
  from Cons.prems(1) obtain ev s1 evs' where
    t: "tick i s = Inr (ev, s1)" and r: "run inps s1 = Inr (evs', s')" and e: "evs = ev # evs'"
    by (rule run_Cons_Inr)
  from step [OF Cons.prems(2) t] have "P s1" "Q ev" by simp_all
  with Cons.IH [OF r] e show ?case by simp
qed

lemma tick_keeps_awake:
  assumes "tick i s = Inr (ev, s')" "\<not> is_resting s"
  shows "\<not> is_resting s'"
  using tick_next [OF assms(1)] assms(2)
  by (simp add: armed_sel on_update_sel off_update_sel split: if_splits)

lemma run_total:
  "\<not> is_resting s \<Longrightarrow> \<exists>evs s'. run inps s = Inr (evs, s') \<and> \<not> is_resting s'"
proof (induction inps arbitrary: s)
  case Nil
  then show ?case by simp
next
  case (Cons i inps)
  from tick_total [OF Cons.prems] obtain ev s1 where t: "tick i s = Inr (ev, s1)"
    by blast
  then have "\<not> is_resting s1" using Cons.prems by (rule tick_keeps_awake)
  from Cons.IH [OF this] obtain evs s' where "run inps s1 = Inr (evs, s')" "\<not> is_resting s'"
    by blast
  with t show ?case by simp
qed

text \<open>
  C6: whatever the readings, the loop started from the module's initial state never fails
  and never has \<open>is_resting\<close> set: every iteration goes straight to the sampling code of
  line 110, so the resting branch of lines 101 to 108 is never entered.
\<close>

theorem never_resting:
  "\<exists>evs s. run inps (init t0 p) = Inr (evs, s) \<and> \<not> is_resting s \<and>
     (\<forall>i. \<not> holding i s \<and> tick i s = body i [] s)"
proof -
  have "\<not> is_resting (init t0 p)" by (simp add: init_def)
  from run_total [OF this] obtain evs s where
    r: "run inps (init t0 p) = Inr (evs, s)" and n: "\<not> is_resting s"
    by blast
  from n have "\<forall>i. \<not> holding i s \<and> tick i s = body i [] s"
    by (simp add: tick_def holding_def)
  with r n show ?thesis by blast
qed

lemma tick_stuck_on:
  assumes "pump_control s \<and> pump_start_time s = None" "tick i s = Inr (ev, s')"
  shows "(pump_control s' \<and> pump_start_time s' = None) \<and> Pump_off \<notin> set ev"
proof -
  let ?v = "read_voltage (raw_adc i)"
  from assms(1) have n: "\<not> start_due i ?v (armed i s)" "\<not> stop_due i ?v (armed i s)"
    by (simp_all add: start_due_armed stop_due_armed)
  then have "s' = s \<or> s' = armed i s"
    using tick_next [OF assms(2)] by (simp split: if_splits)
  with assms(1) have "pump_control s' \<and> pump_start_time s' = None"
    by (auto simp: armed_sel)
  moreover from n have "Pump_off \<notin> set ev"
    using tick_off_iff [OF assms(2)] by simp
  ultimately show ?thesis by simp
qed

text \<open>
  C9: once the pin is on while \<open>pump_start_time\<close> is \<open>None\<close>, no later iteration switches
  the pump off, whatever the samples and clock readings: the pin stays on and
  \<open>pump_start_time\<close> stays \<open>None\<close>.
\<close>

theorem on_without_start_time_stays_on:
  "pump_control s \<and> pump_start_time s = None \<and> run inps s = Inr (evs, s') \<longrightarrow>
     pump_control s' \<and> pump_start_time s' = None \<and> (\<forall>ev \<in> set evs. Pump_off \<notin> set ev)"
proof
  assume a: "pump_control s \<and> pump_start_time s = None \<and> run inps s = Inr (evs, s')"
  then have r: "run inps s = Inr (evs, s')" and p: "pump_control s \<and> pump_start_time s = None"
    by simp_all
  have "(pump_control s' \<and> pump_start_time s' = None) \<and> (\<forall>ev \<in> set evs. Pump_off \<notin> set ev)"
    using r p
  proof (rule run_invariant)
    fix i s ev s'
    assume "pump_control s \<and> pump_start_time s = None" "tick i s = Inr (ev, s')"
    then show "(pump_control s' \<and> pump_start_time s' = None) \<and> Pump_off \<notin> set ev"
      by (rule tick_stuck_on)
  qed
  then show "pump_control s' \<and> pump_start_time s' = None \<and> (\<forall>ev \<in> set evs. Pump_off \<notin> set ev)"
    by simp
qed

theorem on_without_start_time_stays_on_witness:
  "pump_control (init 0 True) \<and> pump_start_time (init 0 True) = None \<and>
   \<not> read_voltage (raw_adc (sample 100 49648)) < 21 / 10 \<and>
   (\<exists>evs s'. run [sample 100 49648, sample 200 49648] (init 0 True) = Inr (evs, s') \<and>
      length evs = 2 \<and> pump_control s' \<and> pump_start_time s' = None \<and>
      (\<forall>ev \<in> set evs. Pump_off \<notin> set ev))"
proof -
  let ?inps = "[sample 100 49648, sample 200 49648]"
  have h: "pump_control (init 0 True)" "pump_start_time (init 0 True) = None"
    "\<not> is_resting (init 0 True)"
    "\<not> read_voltage (raw_adc (sample 100 49648)) < 21 / 10"
    by (simp_all add: init_def sample_def read_voltage_def)
  obtain evs s' where r: "run ?inps (init 0 True) = Inr (evs, s')"
    using run_total [OF h(3)] by blast
  then have l: "length evs = 2"
    by (auto split: sum.splits prod.splits)
  from on_without_start_time_stays_on [of "init 0 True" ?inps evs s'] r h l
  show ?thesis by simp
qed

lemma tick_cycles:
  assumes "tick i s = Inr (ev, s')"
  shows "(Pump_on \<in> set ev \<longleftrightarrow> \<not> pump_control s \<and> pump_control s') \<and>
         pump_cycles s' = (if Pump_on \<in> set ev then pump_cycles s + 1 else pump_cycles s)"
proof -
  let ?v = "read_voltage (raw_adc i)"
  consider (hold) "holding i s"
    | (on) "\<not> holding i s" "start_due i ?v (armed i s)"
    | (off) "\<not> holding i s" "\<not> start_due i ?v (armed i s)" "stop_due i ?v (armed i s)"
    | (none) "\<not> holding i s" "\<not> start_due i ?v (armed i s)" "\<not> stop_due i ?v (armed i s)"
    by blast
  then show ?thesis
  proof cases
    case hold
    then show ?thesis
      using tick_next [OF assms] tick_on_iff [OF assms] by simp
  next
    case on
    then show ?thesis
      using tick_next [OF assms] tick_on_iff [OF assms]
      by (simp add: on_update_sel armed_sel start_due_armed)
  next
    case off
    then show ?thesis
      using tick_next [OF assms] tick_on_iff [OF assms]
      by (simp add: off_update_sel armed_sel)
  next
    case none
    then show ?thesis
      using tick_next [OF assms] tick_on_iff [OF assms]
      by (simp add: armed_sel)
  qed
qed

lemma run_cycles:
  "run inps s = Inr (evs, s') \<Longrightarrow>
     pump_cycles s' = pump_cycles s + int (length (filter (\<lambda>ev. Pump_on \<in> set ev) evs))"
proof (induction inps arbitrary: s evs)
  case Nil
  then show ?case by simp
next
  case (Cons i inps)
  from Cons.prems obtain ev s1 evs' where
    t: "tick i s = Inr (ev, s1)" and r: "run inps s1 = Inr (evs', s')" and e: "evs = ev # evs'"
    by (rule run_Cons_Inr)
  from tick_cycles [OF t] Cons.IH [OF r] e show ?case by simp
qed

text \<open>
  C5: an iteration adds exactly one to \<open>pump_cycles\<close> when it switches the pin from off
  to on, and leaves \<open>pump_cycles\<close> alone otherwise; over a run, \<open>pump_cycles\<close> grows by
  the number of iterations that issued the ON command.
\<close>

theorem pump_cycles_counts_starts:
  "(\<forall>ev s'. tick i s = Inr (ev, s') \<longrightarrow>
       (Pump_on \<in> set ev \<longleftrightarrow> \<not> pump_control s \<and> pump_control s') \<and>
       pump_cycles s' =
         (if \<not> pump_control s \<and> pump_control s' then pump_cycles s + 1 else pump_cycles s))
   \<and> (\<forall>evs s'. run inps s = Inr (evs, s') \<longrightarrow>
       pump_cycles s' =
         pump_cycles s + int (length (filter (\<lambda>ev. Pump_on \<in> set ev) evs)))"
  using tick_cycles run_cycles by auto

theorem pump_cycles_counts_starts_witness:
  "(\<exists>ev s'. tick (sample 111 35746) stopped_at_100 = Inr (ev, s') \<and>
      \<not> pump_control stopped_at_100 \<and> pump_control s' \<and> Pump_on \<in> set ev \<and>
      pump_cycles stopped_at_100 = 1 \<and> pump_cycles s' = 2)
   \<and> (\<exists>ev s'. tick (sample 100 49648) running_since_80 = Inr (ev, s') \<and>
      pump_control running_since_80 \<and> Pump_on \<notin> set ev \<and>
      pump_cycles running_since_80 = 1 \<and> pump_cycles s' = 1)
   \<and> (\<exists>evs s'. run [sample 111 35746, sample 130 49648] stopped_at_100 = Inr (evs, s') \<and>
      pump_cycles s' = 1 + int (length (filter (\<lambda>ev. Pump_on \<in> set ev) evs)))"
proof -
  have h: "\<not> is_resting stopped_at_100" "\<not> pump_control stopped_at_100"
    "pump_cycles stopped_at_100 = 1" "last_pump_stop_time stopped_at_100 = Some 100"
    "\<not> is_resting running_since_80" "pump_control running_since_80"
    "pump_cycles running_since_80 = 1"
    "read_voltage (raw_adc (sample 111 35746)) < 21 / 10"
    "t_loop (sample 111 35746) = 111"
    by (simp_all add: stopped_at_100_def running_since_80_def sample_def read_voltage_def)
  obtain ev1 s1 where t1: "tick (sample 111 35746) stopped_at_100 = Inr (ev1, s1)"
    using tick_total h(1) by blast
  obtain ev2 s2 where t2: "tick (sample 100 49648) running_since_80 = Inr (ev2, s2)"
    using tick_total h(5) by blast
  obtain evs s3 where
    r: "run [sample 111 35746, sample 130 49648] stopped_at_100 = Inr (evs, s3)"
    using run_total [OF h(1)] by blast
  have on: "Pump_on \<in> set ev1"
    using tick_on_iff [OF t1] h
    by (simp add: holding_def start_due_armed PAUSE_BETWEEN_RUNS_def)
  have a: "pump_control s1 \<and> pump_cycles s1 = 2"
    using pump_cycles_counts_starts [of "sample 111 35746" stopped_at_100 "[]"] t1 on h
    by auto
  have b: "Pump_on \<notin> set ev2 \<and> pump_cycles s2 = 1"
    using pump_cycles_counts_starts [of "sample 100 49648" running_since_80 "[]"] t2 h
    by auto
  have c: "pump_cycles s3 = 1 + int (length (filter (\<lambda>ev. Pump_on \<in> set ev) evs))"
    using pump_cycles_counts_starts
      [of "sample 111 35746" stopped_at_100 "[sample 111 35746, sample 130 49648]"] r h
    by auto
  from a b c t1 t2 r on h show ?thesis by simp
qed

lemma tick_start_time:
  assumes "tick i s = Inr (ev, s')"
  shows "pump_start_time s' =
           (if Pump_on \<in> set ev then Some (t_on i)
            else if Pump_off \<in> set ev then None else pump_start_time s)"
    and "pump_control s' =
           (if Pump_on \<in> set ev then True
            else if Pump_off \<in> set ev then False else pump_control s)"
    and "Pump_off \<in> set ev \<Longrightarrow> pump_start_time s \<noteq> None \<and> pump_control s"
    and "Pump_on \<in> set ev \<Longrightarrow> \<not> pump_control s"
    and "\<not> (Pump_on \<in> set ev \<and> Pump_off \<in> set ev)"
  using tick_next [OF assms] tick_on_iff [OF assms] tick_off_iff [OF assms]
    start_stop_exclusive [of i "read_voltage (raw_adc i)" "armed i s"]
  by (auto simp: on_update_sel off_update_sel armed_sel start_due_armed stop_due_armed
      split: if_splits)

lemma tick_consistent:
  assumes "pump_start_time s \<noteq> None \<longleftrightarrow> pump_control s" "tick i s = Inr (ev, s')"
  shows "pump_start_time s' \<noteq> None \<longleftrightarrow> pump_control s'"
  using tick_start_time [OF assms(2)] assms(1) by (auto split: if_splits)

text \<open>
  C3: in every state the loop reaches from the initial state with the pin off,
  \<open>pump_start_time\<close> is set if and only if the pin is on. From such a state an iteration
  sets it exactly when it issues the ON command, clears it exactly when it issues the OFF
  command, and otherwise leaves it as it is.
\<close>

theorem start_time_iff_running:
  "run inps (init t0 False) = Inr (evs, s) \<longrightarrow>
     (pump_start_time s \<noteq> None \<longleftrightarrow> pump_control s) \<and>
     (\<forall>i ev s'. tick i s = Inr (ev, s') \<longrightarrow>
        (Pump_on \<in> set ev \<longleftrightarrow> pump_start_time s = None \<and> pump_start_time s' \<noteq> None) \<and>
        (Pump_off \<in> set ev \<longleftrightarrow> pump_start_time s \<noteq> None \<and> pump_start_time s' = None) \<and>
        (Pump_on \<notin> set ev \<and> Pump_off \<notin> set ev \<longrightarrow> pump_start_time s' = pump_start_time s) \<and>
        (pump_start_time s' \<noteq> None \<longleftrightarrow> pump_control s'))"
proof
  assume r: "run inps (init t0 False) = Inr (evs, s)"
  have "pump_start_time (init t0 False) \<noteq> None \<longleftrightarrow> pump_control (init t0 False)"
    by (simp add: init_def)
  with r have "(pump_start_time s \<noteq> None \<longleftrightarrow> pump_control s) \<and> (\<forall>ev \<in> set evs. True)"
  proof (rule run_invariant)
    fix i s ev s'
    assume "pump_start_time s \<noteq> None \<longleftrightarrow> pump_control s" "tick i s = Inr (ev, s')"
    then show "(pump_start_time s' \<noteq> None \<longleftrightarrow> pump_control s') \<and> True"
      using tick_consistent by blast
  qed
  then have inv: "pump_start_time s \<noteq> None \<longleftrightarrow> pump_control s" by simp
  have "(Pump_on \<in> set ev \<longleftrightarrow> pump_start_time s = None \<and> pump_start_time s' \<noteq> None) \<and>
        (Pump_off \<in> set ev \<longleftrightarrow> pump_start_time s \<noteq> None \<and> pump_start_time s' = None) \<and>
        (Pump_on \<notin> set ev \<and> Pump_off \<notin> set ev \<longrightarrow> pump_start_time s' = pump_start_time s) \<and>
        (pump_start_time s' \<noteq> None \<longleftrightarrow> pump_control s')"
    if t: "tick i s = Inr (ev, s')" for i ev s'
    using tick_start_time [OF t] tick_consistent [OF inv t] inv
    by (auto split: if_splits)
  with inv show "(pump_start_time s \<noteq> None \<longleftrightarrow> pump_control s) \<and>
     (\<forall>i ev s'. tick i s = Inr (ev, s') \<longrightarrow>
        (Pump_on \<in> set ev \<longleftrightarrow> pump_start_time s = None \<and> pump_start_time s' \<noteq> None) \<and>
        (Pump_off \<in> set ev \<longleftrightarrow> pump_start_time s \<noteq> None \<and> pump_start_time s' = None) \<and>
        (Pump_on \<notin> set ev \<and> Pump_off \<notin> set ev \<longrightarrow> pump_start_time s' = pump_start_time s) \<and>
        (pump_start_time s' \<noteq> None \<longleftrightarrow> pump_control s'))"
    by blast
qed

theorem start_time_iff_running_witness:
  "\<exists>evs s ev s'. run [sample 80 35746] (init 50 False) = Inr (evs, s) \<and>
      pump_control s \<and> pump_start_time s \<noteq> None \<and>
      tick (sample 100 49648) s = Inr (ev, s') \<and>
      (Pump_off \<in> set ev \<longleftrightarrow> pump_start_time s' = None) \<and>
      (pump_start_time s' \<noteq> None \<longleftrightarrow> pump_control s')"
proof -
  have h: "\<not> is_resting (init 50 False)" "\<not> pump_control (init 50 False)"
    "last_pump_stop_time (init 50 False) = None"
    "read_voltage (raw_adc (sample 80 35746)) < 21 / 10"
    by (simp_all add: init_def sample_def read_voltage_def)
  obtain evs s where r: "run [sample 80 35746] (init 50 False) = Inr (evs, s)"
      and n: "\<not> is_resting s"
    using run_total [OF h(1)] by blast
  then obtain ev0 where t0: "tick (sample 80 35746) (init 50 False) = Inr (ev0, s)"
    by (auto split: sum.splits prod.splits)
  have "Pump_on \<in> set ev0"
    using tick_on_iff [OF t0] h by (simp add: holding_def start_due_armed)
  then have p: "pump_control s"
    using tick_start_time(2) [OF t0] by simp
  obtain ev s' where t: "tick (sample 100 49648) s = Inr (ev, s')"
    using tick_total [OF n] by blast
  from start_time_iff_running [of "[sample 80 35746]" 50 evs s] r p t
  show ?thesis by blast
qed

lemma tick_accumulators:
  assumes "tick i s = Inr (ev, s')"
  shows "Pump_off \<notin> set ev \<Longrightarrow>
           litres_pumped s' = litres_pumped s \<and> pump_active_time s' = pump_active_time s"
    and "Pump_off \<in> set ev \<Longrightarrow>
           \<exists>st. pump_start_time s = Some st \<and> t_loop i - st \<ge> MIN_RUN_TIME \<and>
             pump_active_time s' = pump_active_time s + (t_dur i - st) \<and>
             litres_pumped s' =
               litres_pumped s + PUMP_RATE_LITRES_PER_MIN * ((t_dur i - st) / 60)"
  using tick_next [OF assms] tick_off_iff [OF assms]
    start_stop_exclusive [of i "read_voltage (raw_adc i)" "armed i s"]
  by (auto simp: on_update_sel off_update_sel armed_sel stop_due_armed split: if_splits)

lemma estimates_running:
  "pump_control s \<Longrightarrow> pump_start_time s = Some st \<Longrightarrow>
     estimates i s =
       (pump_active_time s + (t_rt i - st),
        litres_pumped s + PUMP_RATE_LITRES_PER_MIN * ((t_rt i - st) / 60))"
  by (simp add: estimates_def Let_def)

lemma estimates_armed: "estimates i (armed i s) = estimates i s"
  by (simp add: estimates_def armed_def split: option.splits)

lemma tick_shows:
  assumes "tick i s = Inr (ev, s')" "\<not> is_resting s"
  shows "\<exists>pre shown.
           display_info (t_disp i) s' (fst (estimates i s)) (snd (estimates i s)) = Inr shown \<and>
           ev = pre @ shown @ [Sleep (1 / 10)]"
proof -
  from assms have b: "body i [] s = Inr (ev, s')" by (simp add: tick_def)
  have e: "estimates i (s\<lparr>voltage := Some (read_voltage (raw_adc i))\<rparr>) = estimates i s"
    by (simp add: estimates_def split: option.splits)
  from body_result [OF b] obtain shown where
    "display_info (t_disp i) s' (fst (estimates i s)) (snd (estimates i s)) = Inr shown"
    "ev = [] @ [Print (''Voltage at GPIO 26: '' @ fmt_fixed 2 (read_voltage (raw_adc i)) @ '' V''),
                  Print (''Pump Status: '' @ read_pump_status (pump_control s))]
               @ fst (control i (read_voltage (raw_adc i)) (s\<lparr>voltage := Some (read_voltage (raw_adc i))\<rparr>))
               @ shown @ [Sleep (1 / 10)]"
    unfolding e by blast
  then show ?thesis by (metis append.assoc)
qed


text \<open>
  C8: the figures shown while the pump runs are computed from the committed accumulators
  and the time since \<open>pump_start_time\<close>, and handed to the display routine, which only
  produces OLED commands. An iteration that does not switch the pump off leaves
  \<open>litres_pumped\<close> and \<open>pump_active_time\<close> as they were; one that does adds the duration of
  the run (time of line 142 minus \<open>pump_start_time\<close>) to the committed values, not to the
  estimates, so running time is counted once.
\<close>

theorem estimates_leave_accumulators:
  "\<forall>ev s'. tick i s = Inr (ev, s') \<longrightarrow>
     (Pump_off \<notin> set ev \<longrightarrow>
        litres_pumped s' = litres_pumped s \<and> pump_active_time s' = pump_active_time s) \<and>
     (\<forall>st. \<not> is_resting s \<and> pump_control s \<and> pump_start_time s = Some st \<longrightarrow>
        estimates i s =
          (pump_active_time s + (t_rt i - st),
           litres_pumped s + PUMP_RATE_LITRES_PER_MIN * ((t_rt i - st) / 60)) \<and>
        (\<exists>pre shown.
           display_info (t_disp i) s' (pump_active_time s + (t_rt i - st))
             (litres_pumped s + PUMP_RATE_LITRES_PER_MIN * ((t_rt i - st) / 60)) = Inr shown \<and>
           ev = pre @ shown @ [Sleep (1 / 10)]) \<and>
        (Pump_off \<in> set ev \<longrightarrow>
           pump_active_time s' = pump_active_time s + (t_dur i - st) \<and>
           litres_pumped s' =
             litres_pumped s + PUMP_RATE_LITRES_PER_MIN * ((t_dur i - st) / 60)))"
proof (intro allI impI conjI)
  fix ev s'
  assume t: "tick i s = Inr (ev, s')"
  {
    assume "Pump_off \<notin> set ev"
    then show "litres_pumped s' = litres_pumped s" "pump_active_time s' = pump_active_time s"
      using tick_accumulators(1) [OF t] by simp_all
  }
  fix st
  assume r: "\<not> is_resting s \<and> pump_control s \<and> pump_start_time s = Some st"
  then show e: "estimates i s =
          (pump_active_time s + (t_rt i - st),
           litres_pumped s + PUMP_RATE_LITRES_PER_MIN * ((t_rt i - st) / 60))"
    by (simp add: estimates_running)
  from r show "\<exists>pre shown.
           display_info (t_disp i) s' (pump_active_time s + (t_rt i - st))
             (litres_pumped s + PUMP_RATE_LITRES_PER_MIN * ((t_rt i - st) / 60)) = Inr shown \<and>
           ev = pre @ shown @ [Sleep (1 / 10)]"
    using tick_shows [OF t] by (simp add: e)
  {
    assume "Pump_off \<in> set ev"
    from tick_accumulators(2) [OF t this] r
    show "pump_active_time s' = pump_active_time s + (t_dur i - st)"
      "litres_pumped s' =
             litres_pumped s + PUMP_RATE_LITRES_PER_MIN * ((t_dur i - st) / 60)"
      by auto
  }
qed

theorem estimates_leave_accumulators_witness:
  "\<exists>ev s'. tick (sample 85 49648) running_since_80 = Inr (ev, s') \<and>
      Pump_off \<notin> set ev \<and>
      estimates (sample 85 49648) running_since_80 = (5, 8 / 15) \<and>
      litres_pumped s' = 0 \<and> pump_active_time s' = 0"
proof -
  have h: "\<not> is_resting running_since_80" "pump_control running_since_80"
    "pump_start_time running_since_80 = Some 80"
    "pump_active_time running_since_80 = 0" "litres_pumped running_since_80 = 0"
    "t_loop (sample 85 49648) = 85" "t_rt (sample 85 49648) = 85"
    by (simp_all add: running_since_80_def sample_def)
  obtain ev s' where t: "tick (sample 85 49648) running_since_80 = Inr (ev, s')"
    using tick_total h(1) by blast
  have off: "Pump_off \<notin> set ev"
    using tick_off_iff [OF t] h by (simp add: stop_due_armed MIN_RUN_TIME_def)
  from estimates_leave_accumulators [of "sample 85 49648" running_since_80] t off h
  have "estimates (sample 85 49648) running_since_80 =
          (0 + (85 - 80), 0 + PUMP_RATE_LITRES_PER_MIN * ((85 - 80) / 60)) \<and>
        litres_pumped s' = 0 \<and> pump_active_time s' = 0"
    by simp
  with t off show ?thesis by (simp add: PUMP_RATE_LITRES_PER_MIN_def)
qed

lemma run_litres:
  "run inps s = Inr (evs, s') \<Longrightarrow>
     litres_pumped s' =
       litres_pumped s +
       (\<Sum>d\<leftarrow>cycle_durations (pump_start_time s) (zip inps evs).
          PUMP_RATE_LITRES_PER_MIN * (d / 60)) \<and>
     length (cycle_durations (pump_start_time s) (zip inps evs)) =
       length (filter (\<lambda>ev. Pump_off \<in> set ev) evs)"
proof (induction inps arbitrary: s evs)
  case Nil
  then show ?case by simp
next
  case (Cons i inps)
  from Cons.prems obtain ev s1 evs' where
    t: "tick i s = Inr (ev, s1)" and r: "run inps s1 = Inr (evs', s')" and e: "evs = ev # evs'"
    by (rule run_Cons_Inr)
  note ih = Cons.IH [OF r]
  consider (on) "Pump_on \<in> set ev" "Pump_off \<notin> set ev"
    | (off) "Pump_on \<notin> set ev" "Pump_off \<in> set ev"
    | (none) "Pump_on \<notin> set ev" "Pump_off \<notin> set ev"
    using tick_start_time(5) [OF t] by blast
  then show ?case
  proof cases
    case on
    with ih e tick_start_time(1) [OF t] tick_accumulators(1) [OF t]
    show ?thesis by simp
  next
    case off
    from tick_accumulators(2) [OF t off(2)] obtain st where
      "pump_start_time s = Some st"
      "litres_pumped s1 =
         litres_pumped s + PUMP_RATE_LITRES_PER_MIN * ((t_dur i - st) / 60)"
      by blast
    with off ih e tick_start_time(1) [OF t] show ?thesis by simp
  next
    case none
    with ih e tick_start_time(1) [OF t] tick_accumulators(1) [OF t]
    show ?thesis by simp
  qed
qed

lemma tick_litres_mono:
  assumes "tick i s = Inr (ev, s')" "t_loop i \<le> t_dur i"
  shows "litres_pumped s \<le> litres_pumped s'"
proof (cases "Pump_off \<in> set ev")
  case True
  from tick_accumulators(2) [OF assms(1) True] obtain st where
    st: "t_loop i - st \<ge> MIN_RUN_TIME"
    "litres_pumped s' =
       litres_pumped s + PUMP_RATE_LITRES_PER_MIN * ((t_dur i - st) / 60)"
    by blast
  from st(1) assms(2) have "0 \<le> t_dur i - st" by (simp add: MIN_RUN_TIME_def)
  then have "0 \<le> PUMP_RATE_LITRES_PER_MIN * ((t_dur i - st) / 60)"
    by (simp add: PUMP_RATE_LITRES_PER_MIN_def)
  with st(2) show ?thesis by simp
next
  case False
  then show ?thesis using tick_accumulators(1) [OF assms(1)] by simp
qed

lemma run_litres_mono:
  "run inps s = Inr (evs, s') \<Longrightarrow> \<forall>i \<in> set inps. t_loop i \<le> t_dur i \<Longrightarrow>
     litres_pumped s \<le> litres_pumped s'"
proof (induction inps arbitrary: s evs)
  case Nil
  then show ?case by simp
next
  case (Cons i inps)
  from Cons.prems(1) obtain ev s1 evs' where
    t: "tick i s = Inr (ev, s1)" and r: "run inps s1 = Inr (evs', s')"
    by (rule run_Cons_Inr)
  from Cons.prems(2) have "litres_pumped s \<le> litres_pumped s1"
    using tick_litres_mono [OF t] by simp
  moreover from Cons.prems(2) have "litres_pumped s1 \<le> litres_pumped s'"
    using Cons.IH [OF r] by simp
  ultimately show ?case by simp
qed

lemma run_append:
  "run (xs @ ys) s =
     (case run xs s of
        Inl e \<Rightarrow> Inl e
      | Inr (e1, s1) \<Rightarrow>
          (case run ys s1 of
             Inl e \<Rightarrow> Inl e
           | Inr (e2, s2) \<Rightarrow> Inr (e1 @ e2, s2)))"
  by (induction xs arbitrary: s) (auto split: sum.splits prod.splits)

lemma run_prefix_mono:
  assumes "run inps s = Inr (evs, s')" "run (take k inps) s = Inr (evk, sk)"
    "\<forall>i \<in> set inps. t_loop i \<le> t_dur i"
  shows "litres_pumped sk \<le> litres_pumped s'"
proof -
  have "run (take k inps @ drop k inps) s = Inr (evs, s')"
    using assms(1) by simp
  then obtain e2 where d: "run (drop k inps) sk = Inr (e2, s')"
    unfolding run_append using assms(2) by (auto split: sum.splits prod.splits)
  have "\<forall>i \<in> set (drop k inps). t_loop i \<le> t_dur i"
    using assms(3) by (meson in_set_dropD)
  with d show ?thesis by (rule run_litres_mono)
qed


text \<open>The sample states are states of the program: the loop reaches them.\<close>

lemma running_since_80_reached:
  "\<exists>evs. run [sample 80 35746] (init 50 False) = Inr (evs, running_since_80)"
proof -
  let ?i = "sample 80 35746"
  have h: "\<not> is_resting (init 50 False)" by (simp add: init_def)
  obtain ev s where t: "tick ?i (init 50 False) = Inr (ev, s)"
    using tick_total [OF h] by blast
  have "start_due ?i (read_voltage (raw_adc ?i)) (armed ?i (init 50 False))"
    by (simp add: start_due_armed init_def sample_def read_voltage_def)
  then have "s = on_update ?i (armed ?i (init 50 False))"
    using tick_next [OF t] h by (simp add: holding_def)
  also have "\<dots> = running_since_80"
    by (simp add: on_update_def armed_def init_def sample_def read_voltage_def
        running_since_80_def)
  finally show ?thesis using t by simp
qed

lemma stopped_at_100_reached:
  "\<exists>evs. run [sample 80 35746, sample 100 49648] (init 50 False) = Inr (evs, stopped_at_100)"
proof -
  let ?i = "sample 100 49648"
  obtain evs where r: "run [sample 80 35746] (init 50 False) = Inr (evs, running_since_80)"
    using running_since_80_reached by blast
  have h: "\<not> is_resting running_since_80" by (simp add: running_since_80_def)
  obtain ev s where t: "tick ?i running_since_80 = Inr (ev, s)"
    using tick_total [OF h] by blast
  have d: "stop_due ?i (read_voltage (raw_adc ?i)) (armed ?i running_since_80)"
    by (simp add: stop_due_armed running_since_80_def sample_def read_voltage_def
        MIN_RUN_TIME_def)
  then have "\<not> start_due ?i (read_voltage (raw_adc ?i)) (armed ?i running_since_80)"
    using start_stop_exclusive by blast
  with d have "s = off_update ?i (the (pump_start_time running_since_80))
      (armed ?i running_since_80)"
    using tick_next [OF t] h by (simp add: holding_def)
  also have "\<dots> = stopped_at_100"
    by (simp add: off_update_def armed_def sample_def read_voltage_def
        running_since_80_def stopped_at_100_def PUMP_RATE_LITRES_PER_MIN_def)
  finally have "tick ?i running_since_80 = Inr (ev, stopped_at_100)"
    using t by simp
  with r have "run ([sample 80 35746] @ [?i]) (init 50 False)
      = Inr (evs @ [ev], stopped_at_100)"
    unfolding run_append by simp
  then show ?thesis by auto
qed


lemma started_at_zero_reached:
  "\<exists>evs. run [sample 10 35746, sample 610 49648] (init 0 False) = Inr (evs, started_at_zero)"
proof -
  let ?i = "sample 10 35746" and ?j = "sample 610 49648"
  let ?s1 = "on_update ?i (armed ?i (init 0 False))"
  have h: "\<not> is_resting (init 0 False)" by (simp add: init_def)
  obtain ev1 s1 where t1: "tick ?i (init 0 False) = Inr (ev1, s1)"
    using tick_total [OF h] by blast
  have "start_due ?i (read_voltage (raw_adc ?i)) (armed ?i (init 0 False))"
    by (simp add: start_due_armed init_def sample_def read_voltage_def)
  then have s1: "s1 = ?s1"
    using tick_next [OF t1] h by (simp add: holding_def)
  then have h1: "\<not> is_resting s1"
    by (simp add: on_update_sel armed_sel)
  obtain ev2 s2 where t2: "tick ?j s1 = Inr (ev2, s2)"
    using tick_total [OF h1] by blast
  have d: "stop_due ?j (read_voltage (raw_adc ?j)) (armed ?j s1)"
    by (simp add: stop_due_armed s1 on_update_sel armed_sel sample_def read_voltage_def
        MIN_RUN_TIME_def)
  then have "\<not> start_due ?j (read_voltage (raw_adc ?j)) (armed ?j s1)"
    using start_stop_exclusive by blast
  with d have "s2 = off_update ?j (the (pump_start_time s1)) (armed ?j s1)"
    using tick_next [OF t2] h1 by (simp add: holding_def)
  also have "\<dots> = started_at_zero"
    by (simp add: s1 off_update_def on_update_def armed_def init_def sample_def
        read_voltage_def started_at_zero_def PUMP_RATE_LITRES_PER_MIN_def)
  finally show ?thesis using t1 t2 by simp
qed

lemma clock_back_tick:
  "map_sum id (litres_pumped \<circ> snd) (tick clock_back running_since_80) = Inr (- 16 / 15)"
proof -
  have h: "\<not> is_resting running_since_80" by (simp add: running_since_80_def)
  obtain ev s where t: "tick clock_back running_since_80 = Inr (ev, s)"
    using tick_total [OF h] by blast
  have d: "stop_due clock_back (read_voltage (raw_adc clock_back))
             (armed clock_back running_since_80)"
    by (simp add: stop_due_armed running_since_80_def clock_back_def read_voltage_def
        MIN_RUN_TIME_def)
  then have "\<not> start_due clock_back (read_voltage (raw_adc clock_back))
             (armed clock_back running_since_80)"
    using start_stop_exclusive by blast
  with d have "s = off_update clock_back (the (pump_start_time running_since_80))
      (armed clock_back running_since_80)"
    using tick_next [OF t] h by (simp add: holding_def)
  then have "litres_pumped s = - 16 / 15"
    by (simp add: off_update_sel armed_sel running_since_80_def clock_back_def
        PUMP_RATE_LITRES_PER_MIN_def)
  with t show ?thesis by simp
qed

text \<open>
  Without a condition on the clock \<open>litres_pumped\<close> can decrease. The guard of line 139
  uses the reading of line 98, the duration of line 142 a fresh one: when the pump started
  at 80 and the clock reads 100 and then 70, the iteration commits a run of -10 seconds,
  and \<open>litres_pumped\<close> goes from 0 to -16/15.
\<close>

theorem litres_pumped_decrease_counterexample:
  "map_sum id (litres_pumped \<circ> snd) (run (take 1 [sample 80 35746, clock_back]) (init 50 False))
     = Inr 0 \<and>
   map_sum id (litres_pumped \<circ> snd) (run [sample 80 35746, clock_back] (init 50 False))
     = Inr (- 16 / 15) \<and>
   \<not> (0::rat) \<le> - 16 / 15"
proof -
  obtain evs where r: "run [sample 80 35746] (init 50 False) = Inr (evs, running_since_80)"
    using running_since_80_reached by blast
  then have a: "map_sum id (litres_pumped \<circ> snd)
      (run (take 1 [sample 80 35746, clock_back]) (init 50 False)) = Inr 0"
    by (simp add: running_since_80_def)
  from clock_back_tick obtain ev s where
    t: "tick clock_back running_since_80 = Inr (ev, s)" and l: "litres_pumped s = - 16 / 15"
    by (cases "tick clock_back running_since_80") auto
  from r t have "run ([sample 80 35746] @ [clock_back]) (init 50 False) = Inr (evs @ [ev], s)"
    unfolding run_append by simp
  with l have b: "map_sum id (litres_pumped \<circ> snd)
      (run [sample 80 35746, clock_back] (init 50 False)) = Inr (- 16 / 15)"
    by simp
  from a b show ?thesis by simp
qed

text \<open>
  C4, as amended: after a run from the initial state, \<open>litres_pumped\<close> is the sum,
  over the completed pump runs, of \<open>PUMP_RATE_LITRES_PER_MIN\<close> times the duration in minutes, with one
  duration per OFF command. An iteration that does not switch the pump off leaves
  \<open>litres_pumped\<close> unchanged. When the clock does not go backwards between line 98 and
  line 142, \<open>litres_pumped\<close> never decreases from one iteration of the run to a later one.
\<close>

theorem litres_pumped_is_sum_of_runs:
  "run inps (init t0 p) = Inr (evs, s) \<longrightarrow>
     litres_pumped s =
       (\<Sum>d\<leftarrow>cycle_durations None (zip inps evs). PUMP_RATE_LITRES_PER_MIN * (d / 60)) \<and>
     length (cycle_durations None (zip inps evs)) =
       length (filter (\<lambda>ev. Pump_off \<in> set ev) evs) \<and>
     (\<forall>i ev s'. tick i s = Inr (ev, s') \<and> Pump_off \<notin> set ev \<longrightarrow>
        litres_pumped s' = litres_pumped s) \<and>
     ((\<forall>i \<in> set inps. t_loop i \<le> t_dur i) \<longrightarrow>
        (\<forall>k evk sk. run (take k inps) (init t0 p) = Inr (evk, sk) \<longrightarrow>
           litres_pumped sk \<le> litres_pumped s))"
proof
  assume r: "run inps (init t0 p) = Inr (evs, s)"
  have i: "litres_pumped (init t0 p) = 0" "pump_start_time (init t0 p) = None"
    by (simp_all add: init_def)
  from run_litres [OF r] i
  have a: "litres_pumped s =
       (\<Sum>d\<leftarrow>cycle_durations None (zip inps evs). PUMP_RATE_LITRES_PER_MIN * (d / 60))"
    and b: "length (cycle_durations None (zip inps evs)) =
       length (filter (\<lambda>ev. Pump_off \<in> set ev) evs)"
    by simp_all
  have c: "\<forall>i ev s'. tick i s = Inr (ev, s') \<and> Pump_off \<notin> set ev \<longrightarrow>
        litres_pumped s' = litres_pumped s"
    using tick_accumulators(1) by blast
  have d: "(\<forall>i \<in> set inps. t_loop i \<le> t_dur i) \<longrightarrow>
        (\<forall>k evk sk. run (take k inps) (init t0 p) = Inr (evk, sk) \<longrightarrow>
           litres_pumped sk \<le> litres_pumped s)"
    using run_prefix_mono [OF r] by blast
  from a b c d show "litres_pumped s =
       (\<Sum>d\<leftarrow>cycle_durations None (zip inps evs). PUMP_RATE_LITRES_PER_MIN * (d / 60)) \<and>
     length (cycle_durations None (zip inps evs)) =
       length (filter (\<lambda>ev. Pump_off \<in> set ev) evs) \<and>
     (\<forall>i ev s'. tick i s = Inr (ev, s') \<and> Pump_off \<notin> set ev \<longrightarrow>
        litres_pumped s' = litres_pumped s) \<and>
     ((\<forall>i \<in> set inps. t_loop i \<le> t_dur i) \<longrightarrow>
        (\<forall>k evk sk. run (take k inps) (init t0 p) = Inr (evk, sk) \<longrightarrow>
           litres_pumped sk \<le> litres_pumped s))"
    by blast
qed

theorem litres_pumped_is_sum_of_runs_witness:
  "\<exists>evs s. run [sample 80 35746, sample 100 49648] (init 50 False) = Inr (evs, s) \<and>
     (\<forall>i \<in> set [sample 80 35746, sample 100 49648]. t_loop i \<le> t_dur i) \<and>
     cycle_durations None (zip [sample 80 35746, sample 100 49648] evs) = [20] \<and>
     litres_pumped s = 32 / 15 \<and>
     (\<forall>k evk sk. run (take k [sample 80 35746, sample 100 49648]) (init 50 False)
          = Inr (evk, sk) \<longrightarrow> litres_pumped sk \<le> 32 / 15)"
proof -
  let ?i1 = "sample 80 35746" and ?i2 = "sample 100 49648"
  have h: "\<not> is_resting (init 50 False)" "\<not> pump_control (init 50 False)"
    "last_pump_stop_time (init 50 False) = None"
    "read_voltage (raw_adc ?i1) < 21 / 10" "\<not> read_voltage (raw_adc ?i2) < 21 / 10"
    "t_on ?i1 = 80" "t_loop ?i2 = 100" "t_dur ?i2 = 100"
    by (simp_all add: init_def sample_def read_voltage_def)
  have m: "\<forall>i \<in> set [?i1, ?i2]. t_loop i \<le> t_dur i"
    by (simp add: sample_def)
  obtain evs s where r: "run [?i1, ?i2] (init 50 False) = Inr (evs, s)"
    using run_total [OF h(1)] by blast
  then obtain ev1 s1 ev2 where t1: "tick ?i1 (init 50 False) = Inr (ev1, s1)"
    and t2: "tick ?i2 s1 = Inr (ev2, s)" and e: "evs = [ev1, ev2]"
    by (auto split: sum.splits prod.splits)
  have on1: "Pump_on \<in> set ev1"
    using tick_on_iff [OF t1] h by (simp add: holding_def start_due_armed)
  then have s1: "pump_control s1" "pump_start_time s1 = Some 80" "\<not> is_resting s1"
    using tick_start_time(1,2) [OF t1] tick_keeps_awake [OF t1] h by simp_all
  have off2: "Pump_off \<in> set ev2"
    using tick_off_iff [OF t2] s1 h
    by (simp add: holding_def stop_due_armed MIN_RUN_TIME_def)
  then have on2: "Pump_on \<notin> set ev2"
    using tick_start_time(5) [OF t2] by blast
  have d: "cycle_durations None (zip [?i1, ?i2] evs) = [20]"
    using on1 on2 off2 e h by simp
  from litres_pumped_is_sum_of_runs [of "[?i1, ?i2]" 50 False evs s] r m d
  have l: "litres_pumped s = 32 / 15"
    and "\<forall>k evk sk. run (take k [?i1, ?i2]) (init 50 False) = Inr (evk, sk) \<longrightarrow>
        litres_pumped sk \<le> litres_pumped s"
    by (simp_all add: PUMP_RATE_LITRES_PER_MIN_def)
  then have p: "\<forall>k evk sk. run (take k [?i1, ?i2]) (init 50 False) = Inr (evk, sk) \<longrightarrow>
        litres_pumped sk \<le> 32 / 15"
    by (simp only: l)
  from r m d l p show ?thesis by blast
qed

lemma percent_bounds: "0 \<le> (q::rat) \<Longrightarrow> q \<le> 1 \<Longrightarrow> 0 \<le> q * 100 \<and> q * 100 \<le> 100"
  by simp

lemma display_info_duty:
  "display_info t s a l = Inr ev \<Longrightarrow>
     Oled_text ('' Duty: '' @ fmt_fixed 2 (pump_duty_cycle t s a) @ '' %'') 0 22 \<in> set ev"
  by (auto simp: display_info_def Let_def split: option.splits)

text \<open>
  C7: the duty cycle that the display routine reports should lie between 0 and 100 for
  every valid accumulator state. The code does not achieve this when \<open>start_time\<close> is 0:
  line 76 tests \<open>start_time\<close> for truth where lines 118, 129 and 139 test their
  timestamps against \<open>None\<close>, so a start time of 0 counts as missing and the elapsed
  time is taken to be 1. Ten minutes of pump time within an hour of process time are then
  reported as a duty cycle of 60000, rendered on the third OLED line.
\<close>

theorem duty_cycle_counterexample:
  "0 \<le> pump_active_time started_at_zero \<and>
   pump_active_time started_at_zero \<le> 3600 - start_time started_at_zero \<and>
   pump_duty_cycle 3600 started_at_zero (pump_active_time started_at_zero) = 60000 \<and>
   \<not> pump_duty_cycle 3600 started_at_zero (pump_active_time started_at_zero) \<le> 100 \<and>
   \<not> isl (display_info 3600 started_at_zero 600 64) \<and>
   Oled_text '' Duty: 60000.00 %'' 0 22
     \<in> set (projr (display_info 3600 started_at_zero 600 64))"
proof -
  have d: "pump_duty_cycle 3600 started_at_zero 600 = 60000"
    by (simp add: started_at_zero_def pump_duty_cycle_def elapsed_time_def)
  have v: "voltage started_at_zero \<noteq> None"
    by (simp add: started_at_zero_def)
  then obtain ev where e: "display_info 3600 started_at_zero 600 64 = Inr ev"
    using display_info_Inr_iff by blast
  have "fmt_fixed 2 60000 = ''60000.00''"
    by (simp add: fmt_fixed_def round_half_even_def zero_pad_def Let_def digit_char_def
        show_nat.simps [of 60000] show_nat.simps [of 6000] show_nat.simps [of 600]
        show_nat.simps [of 60] show_nat.simps [of 6] show_nat.simps [of 0])
  with display_info_duty [OF e] d
  have "Oled_text '' Duty: 60000.00 %'' 0 22 \<in> set ev" by simp
  with e d show ?thesis
    by (simp add: started_at_zero_def)
qed

text \<open>
  For every other start time the bound holds: when \<open>start_time\<close> is not 0 and the active
  time handed to the display routine is non-negative and at most the time elapsed since
  \<open>start_time\<close>, the duty cycle it computes and renders lies between 0 and 100.
\<close>

theorem duty_cycle_bounds:
  "start_time s \<noteq> 0 \<and> 0 \<le> current_active_time \<and>
   current_active_time \<le> current_time - start_time s \<longrightarrow>
     0 \<le> pump_duty_cycle current_time s current_active_time \<and>
     pump_duty_cycle current_time s current_active_time \<le> 100 \<and>
     (\<forall>l ev. display_info current_time s current_active_time l = Inr ev \<longrightarrow>
        Oled_text ('' Duty: '' @
          fmt_fixed 2 (pump_duty_cycle current_time s current_active_time) @ '' %'') 0 22
          \<in> set ev)"
proof
  assume a: "start_time s \<noteq> 0 \<and> 0 \<le> current_active_time \<and>
   current_active_time \<le> current_time - start_time s"
  let ?e = "current_time - start_time s"
  from a have e: "elapsed_time current_time s = ?e"
    by (simp add: elapsed_time_def)
  have b: "0 \<le> pump_duty_cycle current_time s current_active_time \<and>
     pump_duty_cycle current_time s current_active_time \<le> 100"
  proof (cases "0 < ?e")
    case True
    with a have "0 \<le> current_active_time / ?e" "current_active_time / ?e \<le> 1"
      by simp_all
    then have "0 \<le> (current_active_time / ?e) * 100 \<and>
        (current_active_time / ?e) * 100 \<le> 100"
      by (rule percent_bounds)
    with True show ?thesis
      by (simp only: pump_duty_cycle_def e if_True)
  next
    case False
    then show ?thesis by (simp add: pump_duty_cycle_def e)
  qed
  with display_info_duty
  show "0 \<le> pump_duty_cycle current_time s current_active_time \<and>
     pump_duty_cycle current_time s current_active_time \<le> 100 \<and>
     (\<forall>l ev. display_info current_time s current_active_time l = Inr ev \<longrightarrow>
        Oled_text ('' Duty: '' @
          fmt_fixed 2 (pump_duty_cycle current_time s current_active_time) @ '' %'') 0 22
          \<in> set ev)"
    by blast
qed

theorem duty_cycle_bounds_witness:
  "start_time stopped_at_100 \<noteq> 0 \<and> (0::rat) \<le> 20 \<and> 20 \<le> 100 - start_time stopped_at_100 \<and>
   pump_duty_cycle 100 stopped_at_100 20 = 40 \<and>
   0 \<le> pump_duty_cycle 100 stopped_at_100 20 \<and> pump_duty_cycle 100 stopped_at_100 20 \<le> 100"
proof -
  have h: "start_time stopped_at_100 \<noteq> 0 \<and> (0::rat) \<le> 20 \<and>
      20 \<le> 100 - start_time stopped_at_100"
    by (simp add: stopped_at_100_def)
  have v: "pump_duty_cycle 100 stopped_at_100 20 = 40"
    by (simp add: stopped_at_100_def pump_duty_cycle_def elapsed_time_def)
  from duty_cycle_bounds [of stopped_at_100 20 100] h v show ?thesis by simp
qed

end
